theory Spec2Isabelle
  imports Main "HOL-Library.Word"
begin

section \<open>Time, durations and retention options\<close>

text \<open>
  Go's \<^verbatim>\<open>time.Duration\<close> is an \<^verbatim>\<open>int64\<close> count of nanoseconds: it is a 64-bit
  word read as two's complement, so the unary minus of \<^verbatim>\<open>targetRanges\<close> wraps at the
  smallest value.
\<close>

type_synonym Duration = "64 word"

text \<open>
  A \<^verbatim>\<open>time.Time\<close> is an instant: a signed 64-bit count of seconds since Go's zero time,
  January 1 of year 1, 00:00:00 UTC, and a count of nanoseconds within the second, from 0
  to 999999999. The instant is written as the integer \<open>sec * 10 ^ 9 + nsec\<close>; the instants
  that a \<^verbatim>\<open>time.Time\<close> can hold are those from \<open>minTime\<close> to \<open>maxTime\<close>. (The location
  of a time, and the monotonic clock reading that \<^verbatim>\<open>Add\<close> carries along and
  \<^verbatim>\<open>Truncate\<close> strips, are no part of the instant.)
\<close>

type_synonym Time = int



text \<open>
  \<^verbatim>\<open>t.Add(d)\<close>: the instant \<open>d\<close> nanoseconds after \<open>t\<close>. Go adds the nanoseconds,
  carries into the seconds, and adds the seconds with a check: when their sum leaves the
  64-bit range, the seconds become \<open>2 ^ 63 - 1\<close> or \<open>- (2 ^ 63 - 1)\<close>, next to the
  nanoseconds of the sum. (Releases of Go that do not check let the seconds wrap around
  instead; the two agree wherever the sum is an instant that a \<^verbatim>\<open>time.Time\<close> can hold.)
\<close>

definition time_Add :: "Time \<Rightarrow> Duration \<Rightarrow> Time" where
  "time_Add t d =
     (let sum = t + sint d;
          sec = sum div 1000000000;
          nsec = sum mod 1000000000
      in if 2 ^ 63 - 1 < sec then (2 ^ 63 - 1) * 1000000000 + nsec
         else if sec < - (2 ^ 63) then - (2 ^ 63 - 1) * 1000000000 + nsec
         else sum)"

text \<open>
  \<^verbatim>\<open>t.Truncate(d)\<close>: \<open>t\<close> rounded down to a multiple of \<open>d\<close> since the zero time.
  For \<^verbatim>\<open>d <= 0\<close> Go returns \<open>t\<close> unchanged; otherwise it computes the remainder \<open>r\<close> of
  \<open>t\<close> by \<open>d\<close>, a duration from 0 up to \<open>d\<close>, and returns \<^verbatim>\<open>t.Add(-r)\<close>.
\<close>

definition time_Truncate :: "Time \<Rightarrow> Duration \<Rightarrow> Time" where
  "time_Truncate t d =
     (if sint d \<le> 0 then t else time_Add t (- word_of_int (t mod sint d)))"



definition Nanosecond :: Duration where
  "Nanosecond = 1"

definition Minute :: Duration where
  "Minute = 60000000000"

definition Hour :: Duration where
  "Hour = 3600000000000"

text \<open>
  Modelled from the spec: the retention options, \<^verbatim>\<open>xtime.Range\<close>,
  \<^verbatim>\<open>bootstrap.RunOptions\<close> and \<^verbatim>\<open>bootstrap.TargetRange\<close> are declared in other
  packages. The specification gives the options as period, block size, past buffer and
  future buffer, and a target range as a half-open window \<open>[start, end)\<close> with one
  run option, the flag \<open>incremental\<close>.
\<close>

record RetentionOptions =
  RetentionPeriod :: Duration
  BlockSize :: Duration
  BufferPast :: Duration
  BufferFuture :: Duration

record Range =
  Start :: Time
  End :: Time

record RunOptions =
  Incremental :: bool

definition NewRunOptions :: RunOptions where
  "NewRunOptions = \<lparr>Incremental = False\<rparr>"

definition SetIncremental :: "bool \<Rightarrow> RunOptions \<Rightarrow> RunOptions" where
  "SetIncremental value ro = ro\<lparr>Incremental := value\<rparr>"

record TargetRange =
  Range :: Range
  RunOptions :: RunOptions

section \<open>The bootstrap manager\<close>

datatype bootstrapState = bootstrapNotStarted | bootstrapping | bootstrapped

text \<open>
  The fields of \<^verbatim>\<open>bootstrapManager\<close> that \<^verbatim>\<open>Bootstrap\<close> and \<^verbatim>\<open>targetRanges\<close> read or
  write: the retention options held by \<^verbatim>\<open>opts\<close>, the phase and the pending flag. The
  database, the mediator, the clock and the process are the environment of a call.
\<close>

record bootstrapManager =
  opts :: RetentionOptions
  state :: bootstrapState
  hasPending :: bool

definition newBootstrapManager :: "RetentionOptions \<Rightarrow> bootstrapManager" where
  "newBootstrapManager ropts =
     \<lparr>opts = ropts, state = bootstrapNotStarted, hasPending = False\<rparr>"

definition IsBootstrapped :: "bootstrapManager \<Rightarrow> bool" where
  "IsBootstrapped m = (state m = bootstrapped)"

subsection \<open>Target ranges\<close>

definition targetRanges :: "bootstrapManager \<Rightarrow> Time \<Rightarrow> TargetRange list" where
  "targetRanges m at =
     (let ropts = opts m;
          start = time_Truncate (time_Add at (- RetentionPeriod ropts)) (BlockSize ropts);
          midPoint =
            time_Add
              (time_Truncate
                (time_Add (time_Add at (- BlockSize ropts)) (- BufferPast ropts))
                (BlockSize ropts))
              (BlockSize ropts);
          cutover =
            time_Add
              (time_Truncate (time_Add at (BufferFuture ropts)) (BlockSize ropts))
              (BlockSize ropts)
      in [\<lparr>Range = \<lparr>Start = start, End = midPoint\<rparr>,
           RunOptions = SetIncremental True NewRunOptions\<rparr>,
          \<lparr>Range = \<lparr>Start = midPoint, End = cutover\<rparr>,
           RunOptions = SetIncremental False NewRunOptions\<rparr>])"



subsection \<open>Errors\<close>

datatype error =
    errDatabaseNotBootstrapped
  | errNamespaceIsBootstrapping
  | errNamespaceNotBootstrapped
  | errShardIsBootstrapping
  | errShardNotBootstrappedToFlush
  | errShardNotBootstrappedToRead
  | errBootstrapEnqueued
  | errOther string
  | errMulti "error list"

text \<open>
  Modelled from the spec: \<^verbatim>\<open>xerrors.MultiError\<close> belongs to another library. The
  specification describes it as an ordered list of errors with a single final error that
  is nil if the list is empty and else a composite of the list.
\<close>

type_synonym MultiError = "error list"

definition NewMultiError :: MultiError where
  "NewMultiError = []"

definition multi_Add :: "MultiError \<Rightarrow> error \<Rightarrow> MultiError" where
  "multi_Add multiErr err = multiErr @ [err]"

definition FinalError :: "MultiError \<Rightarrow> error option" where
  "FinalError multiErr = (if multiErr = [] then None else Some (errMulti multiErr))"

text \<open>
  \<^verbatim>\<open>if err != nil { multiErr = multiErr.Add(err) }\<close>, as both loops have it.
\<close>

definition add_if_error :: "MultiError \<Rightarrow> error option \<Rightarrow> MultiError" where
  "add_if_error multiErr err =
     (case err of None \<Rightarrow> multiErr | Some e \<Rightarrow> multi_Add multiErr e)"

subsection \<open>The environment of a call\<close>

text \<open>
  A function call of the source either returns or panics.
\<close>

datatype 'a outcome = Returns 'a | Panics

text \<open>
  \<^verbatim>\<open>namespace.Bootstrap\<close> is a parameter of the model: a namespace is its identifier
  together with how its \<^verbatim>\<open>Bootstrap(process, targetRanges)\<close> ends when it is called,
  with an error, with nil, or with a panic.
\<close>

record namespace =
  ID :: string
  Bootstrap_ends :: "error option outcome"

text \<open>
  What the environment does during one iteration of the run loop: the reading of
  \<^verbatim>\<open>m.nowFn()\<close> that \<^verbatim>\<open>targetRanges\<close> receives, the namespaces that
  \<^verbatim>\<open>getOwnedNamespaces()\<close> returns, and the number of other \<^verbatim>\<open>Bootstrap()\<close> calls that
  arrive, on other goroutines, while the iteration runs. (The two clock readings around
  each namespace only feed the log line and are left out, as is the log.)
\<close>

record iteration =
  nowFn :: Time
  getOwnedNamespaces :: "namespace list"
  arrivals :: nat

text \<open>The calls a \<^verbatim>\<open>Bootstrap()\<close> makes, in the order it makes them.\<close>

datatype event =
    DisableFileOps
  | EnableFileOps
  | TargetRanges Time
  | NamespaceBootstrap string "TargetRange list"

subsection \<open>bootstrap: one pass over the owned namespaces\<close>

fun bootstrap_namespaces ::
  "TargetRange list \<Rightarrow> namespace list \<Rightarrow> MultiError \<Rightarrow> event list \<times> MultiError outcome"
where
  "bootstrap_namespaces trs [] multiErr = ([], Returns multiErr)"
| "bootstrap_namespaces trs (ns # rest) multiErr =
     (case Bootstrap_ends ns of
        Panics \<Rightarrow> ([NamespaceBootstrap (ID ns) trs], Panics)
      | Returns err \<Rightarrow>
          (case bootstrap_namespaces trs rest (add_if_error multiErr err) of
             (evs, r) \<Rightarrow> (NamespaceBootstrap (ID ns) trs # evs, r)))"

definition bootstrap :: "bootstrapManager \<Rightarrow> iteration \<Rightarrow> event list \<times> error option outcome" where
  "bootstrap m it =
     (let trs = targetRanges m (nowFn it)
      in case bootstrap_namespaces trs (getOwnedNamespaces it) NewMultiError of
           (evs, Panics) \<Rightarrow> (TargetRanges (nowFn it) # evs, Panics)
         | (evs, Returns multiErr) \<Rightarrow>
             (TargetRanges (nowFn it) # evs, Returns (FinalError multiErr)))"

subsection \<open>Bootstrap: the two critical sections and the run loop\<close>

text \<open>
  The first critical section (the \<^verbatim>\<open>switch\<close> under \<^verbatim>\<open>m.Lock()\<close>): the new manager
  and whether the call is enqueued.
\<close>

definition Bootstrap_enter :: "bootstrapManager \<Rightarrow> bootstrapManager \<times> bool" where
  "Bootstrap_enter m =
     (case state m of
        bootstrapping \<Rightarrow> (m\<lparr>hasPending := True\<rparr>, True)
      | _ \<Rightarrow> (m\<lparr>state := bootstrapping\<rparr>, False))"

text \<open>
  The critical section that ends each iteration of the loop: the new manager and
  \<^verbatim>\<open>currPending\<close>.
\<close>

definition Bootstrap_pending :: "bootstrapManager \<Rightarrow> bootstrapManager \<times> bool" where
  "Bootstrap_pending m =
     (let currPending = hasPending m
      in if currPending then (m\<lparr>hasPending := False\<rparr>, currPending)
         else (m\<lparr>state := bootstrapped\<rparr>, currPending))"

text \<open>
  The manager after \<open>n\<close> other calls of \<^verbatim>\<open>Bootstrap()\<close> went through the first
  critical section. While a run is active the phase is \<open>bootstrapping\<close>, so each of them
  is enqueued and returns at once.
\<close>

fun other_calls :: "nat \<Rightarrow> bootstrapManager \<Rightarrow> bootstrapManager" where
  "other_calls 0 m = m"
| "other_calls (Suc n) m = other_calls n (fst (Bootstrap_enter m))"

text \<open>
  The loop of \<^verbatim>\<open>Bootstrap\<close>, one equation per iteration. The list describes the
  environment for as many iterations as are observed; the loop has no bound of its own, and
  the result is \<open>None\<close> when it asks for an iteration beyond the list. A result is the
  manager as the call leaves it at its last critical section, the calls made, and how the
  loop ends.
\<close>

fun Bootstrap_loop ::
  "bootstrapManager \<Rightarrow> iteration list \<Rightarrow> MultiError \<Rightarrow>
   (bootstrapManager \<times> event list \<times> error option outcome) option"
where
  "Bootstrap_loop m [] multiErr = None"
| "Bootstrap_loop m (it # its) multiErr =
     (case bootstrap m it of
        (evs, Panics) \<Rightarrow> Some (other_calls (arrivals it) m, evs, Panics)
      | (evs, Returns err) \<Rightarrow>
          (case Bootstrap_pending (other_calls (arrivals it) m) of
             (m', currPending) \<Rightarrow>
               if \<not> currPending
               then Some (m', evs, Returns (FinalError (add_if_error multiErr err)))
               else (case Bootstrap_loop m' its (add_if_error multiErr err) of
                       None \<Rightarrow> None
                     | Some (m'', evs', r) \<Rightarrow> Some (m'', evs @ evs', r))))"

text \<open>
  \<^verbatim>\<open>Bootstrap()\<close>. The deferred \<^verbatim>\<open>EnableFileOps\<close> runs when the function returns and
  when a panic unwinds it.
\<close>

definition Bootstrap ::
  "bootstrapManager \<Rightarrow> iteration list \<Rightarrow>
   (bootstrapManager \<times> event list \<times> error option outcome) option"
where
  "Bootstrap m its =
     (case Bootstrap_enter m of
        (m', True) \<Rightarrow> Some (m', [], Returns (Some errBootstrapEnqueued))
      | (m', False) \<Rightarrow>
          (case Bootstrap_loop m' its NewMultiError of
             None \<Rightarrow> None
           | Some (m'', evs, r) \<Rightarrow> Some (m'', DisableFileOps # evs @ [EnableFileOps], r)))"

subsection \<open>Interleaved calls\<close>

text \<open>
  Any number of goroutines may call \<^verbatim>\<open>Bootstrap()\<close>. The manager is only read and
  written inside the two critical sections, so an execution of the whole system is a
  sequence of these steps: a call goes through the first critical section, a running call
  ends an iteration, or a running call is unwound by a panic. \<open>running\<close> counts the calls
  that are between their first critical section and their exit.
\<close>

datatype action = Call | IterationEnds | RunPanics

record system =
  manager :: bootstrapManager
  running :: nat

definition step :: "action \<Rightarrow> system \<Rightarrow> system option" where
  "step a s =
     (case a of
        Call \<Rightarrow>
          (case Bootstrap_enter (manager s) of
             (m', enqueued) \<Rightarrow>
               Some \<lparr>manager = m',
                     running = (if enqueued then running s else Suc (running s))\<rparr>)
      | IterationEnds \<Rightarrow>
          if running s = 0 then None
          else (case Bootstrap_pending (manager s) of
                  (m', currPending) \<Rightarrow>
                    Some \<lparr>manager = m',
                          running = (if currPending then running s else running s - 1)\<rparr>)
      | RunPanics \<Rightarrow>
          if running s = 0 then None
          else Some \<lparr>manager = manager s, running = running s - 1\<rparr>)"

fun steps :: "action list \<Rightarrow> system \<Rightarrow> system option" where
  "steps [] s = Some s"
| "steps (a # as) s = (case step a s of None \<Rightarrow> None | Some s' \<Rightarrow> steps as s')"

definition initial :: "RetentionOptions \<Rightarrow> system" where
  "initial ropts = \<lparr>manager = newBootstrapManager ropts, running = 0\<rparr>"

subsection \<open>What an iteration is expected to do\<close>

text \<open>
  The vocabulary of the statements below: whether a namespace of the iteration panics, the
  errors its namespaces return, in order, and the calls of an iteration in which every
  owned namespace is bootstrapped.
\<close>

definition iteration_panics :: "iteration \<Rightarrow> bool" where
  "iteration_panics it = list_ex (\<lambda>ns. Bootstrap_ends ns = Panics) (getOwnedNamespaces it)"

definition returned_errors :: "namespace list \<Rightarrow> error list" where
  "returned_errors nss =
     List.map_filter
       (\<lambda>ns. case Bootstrap_ends ns of Returns (Some e) \<Rightarrow> Some e | _ \<Rightarrow> None) nss"

definition iteration_error :: "iteration \<Rightarrow> error option" where
  "iteration_error it = FinalError (returned_errors (getOwnedNamespaces it))"

definition iteration_events :: "bootstrapManager \<Rightarrow> iteration \<Rightarrow> event list" where
  "iteration_events m it =
     TargetRanges (nowFn it) #
     map (\<lambda>ns. NamespaceBootstrap (ID ns) (targetRanges m (nowFn it))) (getOwnedNamespaces it)"

text \<open>
  The same iteration with every error that a namespace returns replaced by nil, and the
  errors that an error packages (itself, when it is not a multi-error).
\<close>

definition without_errors :: "iteration \<Rightarrow> iteration" where
  "without_errors it =
     it\<lparr>getOwnedNamespaces :=
          map (\<lambda>ns. ns\<lparr>Bootstrap_ends :=
                        (case Bootstrap_ends ns of Returns err \<Rightarrow> Returns None | Panics \<Rightarrow> Panics)\<rparr>)
            (getOwnedNamespaces it)\<rparr>"

definition packaged_errors :: "error \<Rightarrow> error list" where
  "packaged_errors e = (case e of errMulti es \<Rightarrow> es | _ \<Rightarrow> [e])"

subsection \<open>Example inputs\<close>

text \<open>
  Retention options: the ones of the specification's boundary scenario, the ones of the
  peers bootstrap integration test (6h, 2h, 10min, 2min), and options at the edges of the
  duration type; the last whole second that a time can hold. Then iterations of the run loop: a namespace that succeeds, namespaces
  that return errors, one that panics, and other calls arriving meanwhile.
\<close>

definition example_opts :: RetentionOptions where
  "example_opts =
     \<lparr>RetentionPeriod = 10 * Nanosecond, BlockSize = 2 * Nanosecond,
      BufferPast = Nanosecond, BufferFuture = Nanosecond\<rparr>"

definition test_opts :: RetentionOptions where
  "test_opts =
     \<lparr>RetentionPeriod = 6 * Hour, BlockSize = 2 * Hour,
      BufferPast = 10 * Minute, BufferFuture = 2 * Minute\<rparr>"







definition quiet_pass :: iteration where
  "quiet_pass =
     \<lparr>nowFn = 1000000,
      getOwnedNamespaces = [\<lparr>ID = ''metrics'', Bootstrap_ends = Returns None\<rparr>],
      arrivals = 0\<rparr>"

definition failing_pass :: iteration where
  "failing_pass =
     \<lparr>nowFn = 1000000,
      getOwnedNamespaces =
        [\<lparr>ID = ''events'', Bootstrap_ends = Returns (Some errNamespaceIsBootstrapping)\<rparr>,
         \<lparr>ID = ''metrics'', Bootstrap_ends = Returns None\<rparr>,
         \<lparr>ID = ''traces'', Bootstrap_ends = Returns (Some (errOther ''peer unavailable''))\<rparr>],
      arrivals = 0\<rparr>"

definition busy_pass :: iteration where
  "busy_pass =
     \<lparr>nowFn = 1000000,
      getOwnedNamespaces =
        [\<lparr>ID = ''events'', Bootstrap_ends = Returns (Some errNamespaceIsBootstrapping)\<rparr>,
         \<lparr>ID = ''metrics'', Bootstrap_ends = Returns None\<rparr>],
      arrivals = 2\<rparr>"

definition panicking_pass :: iteration where
  "panicking_pass =
     \<lparr>nowFn = 1000000,
      getOwnedNamespaces =
        [\<lparr>ID = ''metrics'', Bootstrap_ends = Returns None\<rparr>,
         \<lparr>ID = ''broken'', Bootstrap_ends = Panics\<rparr>,
         \<lparr>ID = ''events'', Bootstrap_ends = Returns (Some errNamespaceIsBootstrapping)\<rparr>],
      arrivals = 1\<rparr>"

definition example_ranges :: "TargetRange list" where
  "example_ranges =
     [\<lparr>Range = \<lparr>Start = 999990, End = 999998\<rparr>, RunOptions = \<lparr>Incremental = True\<rparr>\<rparr>,
      \<lparr>Range = \<lparr>Start = 999998, End = 1000002\<rparr>, RunOptions = \<lparr>Incremental = False\<rparr>\<rparr>]"

section \<open>Auxiliary facts\<close>

lemmas run_defs = Bootstrap_def Bootstrap_enter_def Bootstrap_pending_def Bootstrap_loop.simps
  bootstrap_def Let_def NewMultiError_def multi_Add_def FinalError_def add_if_error_def

subsection \<open>Durations, instants and truncation\<close>




lemma time_Add_unfold:
  "time_Add t d =
     (if 2 ^ 63 - 1 < (t + sint d) div 1000000000
      then (2 ^ 63 - 1) * 1000000000 + (t + sint d) mod 1000000000
      else if (t + sint d) div 1000000000 < - (2 ^ 63)
      then - (2 ^ 63 - 1) * 1000000000 + (t + sint d) mod 1000000000
      else t + sint d)"
  by (simp add: time_Add_def Let_def)

lemma targetRanges_unfold:
  "targetRanges m at =
     [\<lparr>Range =
         \<lparr>Start = time_Truncate (time_Add at (- RetentionPeriod (opts m))) (BlockSize (opts m)),
          End = time_Add
                  (time_Truncate
                    (time_Add (time_Add at (- BlockSize (opts m))) (- BufferPast (opts m)))
                    (BlockSize (opts m)))
                  (BlockSize (opts m))\<rparr>,
       RunOptions = \<lparr>Incremental = True\<rparr>\<rparr>,
      \<lparr>Range =
         \<lparr>Start = time_Add
                    (time_Truncate
                      (time_Add (time_Add at (- BlockSize (opts m))) (- BufferPast (opts m)))
                      (BlockSize (opts m)))
                    (BlockSize (opts m)),
          End = time_Add
                  (time_Truncate (time_Add at (BufferFuture (opts m))) (BlockSize (opts m)))
                  (BlockSize (opts m))\<rparr>,
       RunOptions = \<lparr>Incremental = False\<rparr>\<rparr>]"
  by (simp add: targetRanges_def Let_def NewRunOptions_def SetIncremental_def)





lemmas time_defs = targetRanges_unfold time_Add_unfold time_Truncate_def


subsection \<open>The critical sections and one pass\<close>

lemma Bootstrap_enter_bootstrapping:
  "state m = bootstrapping \<Longrightarrow> Bootstrap_enter m = (m\<lparr>hasPending := True\<rparr>, True)"
  by (simp add: Bootstrap_enter_def)

lemma Bootstrap_enter_otherwise:
  "state m \<noteq> bootstrapping \<Longrightarrow> Bootstrap_enter m = (m\<lparr>state := bootstrapping\<rparr>, False)"
  by (cases "state m") (simp_all add: Bootstrap_enter_def)

lemma other_calls_bootstrapping:
  "state m = bootstrapping \<Longrightarrow>
   other_calls n m = (if n = 0 then m else m\<lparr>hasPending := True\<rparr>)"
  by (induction n arbitrary: m) (simp_all add: Bootstrap_enter_bootstrapping)

lemma other_calls_opts: "opts (other_calls n m) = opts m"
  by (induction n arbitrary: m) (auto simp: Bootstrap_enter_def split: bootstrapState.splits)

lemma iteration_events_opts:
  "opts m' = opts m \<Longrightarrow> iteration_events m' it = iteration_events m it"
  by (simp add: iteration_events_def targetRanges_def)

lemma bootstrap_namespaces_no_panic:
  "\<not> list_ex (\<lambda>ns. Bootstrap_ends ns = Panics) nss \<Longrightarrow>
   bootstrap_namespaces trs nss multiErr =
     (map (\<lambda>ns. NamespaceBootstrap (ID ns) trs) nss,
      Returns (multiErr @ returned_errors nss))"
proof (induction nss arbitrary: multiErr)
  case Nil
  then show ?case by (simp add: returned_errors_def List.map_filter_simps)
next
  case (Cons ns nss)
  then obtain err where ends: "Bootstrap_ends ns = Returns err"
    by (cases "Bootstrap_ends ns") simp_all
  from Cons.prems have "\<not> list_ex (\<lambda>ns. Bootstrap_ends ns = Panics) nss" by simp
  from Cons.IH [OF this] ends show ?case
    by (cases err)
       (simp_all add: returned_errors_def List.map_filter_simps add_if_error_def multi_Add_def)
qed

lemma bootstrap_namespaces_Returns:
  "bootstrap_namespaces trs nss multiErr = (evs, Returns r) \<Longrightarrow>
   \<not> list_ex (\<lambda>ns. Bootstrap_ends ns = Panics) nss"
proof (induction nss arbitrary: multiErr evs)
  case Nil
  then show ?case by simp
next
  case (Cons ns nss)
  show ?case
  proof (cases "Bootstrap_ends ns")
    case Panics
    with Cons.prems show ?thesis by simp
  next
    case (Returns err)
    obtain evs1 r1 where
      rest: "bootstrap_namespaces trs nss (add_if_error multiErr err) = (evs1, r1)"
      by (cases "bootstrap_namespaces trs nss (add_if_error multiErr err)")
    with Cons.prems Returns have "r1 = Returns r" by simp
    with rest Cons.IH Returns show ?thesis by simp
  qed
qed

lemma bootstrap_no_panic:
  "\<not> iteration_panics it \<Longrightarrow>
   bootstrap m it = (iteration_events m it, Returns (iteration_error it))"
  by (simp add: bootstrap_def iteration_panics_def bootstrap_namespaces_no_panic
      iteration_events_def iteration_error_def NewMultiError_def)

lemma bootstrap_Returns:
  assumes "bootstrap m it = (evs, Returns err)"
  shows "\<not> iteration_panics it"
proof -
  obtain evs1 r1 where
    b: "bootstrap_namespaces (targetRanges m (nowFn it)) (getOwnedNamespaces it) NewMultiError
          = (evs1, r1)"
    by (cases "bootstrap_namespaces (targetRanges m (nowFn it)) (getOwnedNamespaces it)
          NewMultiError")
  with assms obtain multiErr where "r1 = Returns multiErr"
    by (cases r1) (simp_all add: bootstrap_def)
  with b show ?thesis
    unfolding iteration_panics_def by (simp add: bootstrap_namespaces_Returns)
qed

lemma bootstrap_namespaces_events:
  "bootstrap_namespaces trs nss multiErr = (evs, r) \<Longrightarrow>
   DisableFileOps \<notin> set evs \<and> EnableFileOps \<notin> set evs"
proof (induction nss arbitrary: multiErr evs r)
  case Nil
  then show ?case by simp
next
  case (Cons ns nss)
  show ?case
  proof (cases "Bootstrap_ends ns")
    case Panics
    with Cons.prems show ?thesis by auto
  next
    case (Returns err)
    obtain evs1 r1 where
      rest: "bootstrap_namespaces trs nss (add_if_error multiErr err) = (evs1, r1)"
      by (cases "bootstrap_namespaces trs nss (add_if_error multiErr err)")
    with Cons.prems Returns have "evs = NamespaceBootstrap (ID ns) trs # evs1" by simp
    with Cons.IH [OF rest] show ?thesis by simp
  qed
qed

lemma bootstrap_events:
  assumes "bootstrap m it = (evs, r)"
  shows "DisableFileOps \<notin> set evs \<and> EnableFileOps \<notin> set evs"
proof -
  obtain evs1 r1 where
    b: "bootstrap_namespaces (targetRanges m (nowFn it)) (getOwnedNamespaces it) NewMultiError
          = (evs1, r1)"
    by (cases "bootstrap_namespaces (targetRanges m (nowFn it)) (getOwnedNamespaces it)
          NewMultiError")
  with assms have "evs = TargetRanges (nowFn it) # evs1"
    by (cases r1) (simp_all add: bootstrap_def)
  with bootstrap_namespaces_events [OF b] show ?thesis by simp
qed

lemma Bootstrap_loop_events:
  "Bootstrap_loop m its multiErr = Some (m', evs, r) \<Longrightarrow>
   DisableFileOps \<notin> set evs \<and> EnableFileOps \<notin> set evs"
proof (induction its arbitrary: m multiErr m' evs r)
  case Nil
  then show ?case by simp
next
  case (Cons it its)
  obtain evs0 r0 where b: "bootstrap m it = (evs0, r0)" by (cases "bootstrap m it")
  note ev0 = bootstrap_events [OF b]
  show ?case
  proof (cases r0)
    case Panics
    with Cons.prems b ev0 show ?thesis by simp
  next
    case (Returns err)
    obtain m1 cp where p: "Bootstrap_pending (other_calls (arrivals it) m) = (m1, cp)"
      by (cases "Bootstrap_pending (other_calls (arrivals it) m)")
    show ?thesis
    proof (cases cp)
      case False
      with Cons.prems b Returns p ev0 show ?thesis by simp
    next
      case True
      with Cons.prems b Returns p obtain evs1 where
        l: "Bootstrap_loop m1 its (add_if_error multiErr err) = Some (m', evs1, r)"
        and e: "evs = evs0 @ evs1"
        by (auto split: option.splits)
      from Cons.IH [OF l] ev0 e show ?thesis by simp
    qed
  qed
qed

lemma Bootstrap_pending_eq:
  "Bootstrap_pending m =
     (if hasPending m then (m\<lparr>hasPending := False\<rparr>, True)
      else (m\<lparr>state := bootstrapped\<rparr>, False))"
  by (simp add: Bootstrap_pending_def Let_def)

lemma add_if_error_append:
  "add_if_error multiErr err = multiErr @ (case err of None \<Rightarrow> [] | Some e \<Rightarrow> [e])"
  by (cases err) (simp_all add: add_if_error_def multi_Add_def)

subsection \<open>The run loop\<close>

lemma Bootstrap_loop_step:
  assumes "\<not> iteration_panics it"
  shows "Bootstrap_loop m (it # its) multiErr =
     (if hasPending (other_calls (arrivals it) m)
      then map_option (\<lambda>(m', evs, r). (m', iteration_events m it @ evs, r))
             (Bootstrap_loop ((other_calls (arrivals it) m)\<lparr>hasPending := False\<rparr>) its
                (add_if_error multiErr (iteration_error it)))
      else Some ((other_calls (arrivals it) m)\<lparr>state := bootstrapped\<rparr>,
                 iteration_events m it,
                 Returns (FinalError (add_if_error multiErr (iteration_error it)))))"
  by (simp add: bootstrap_no_panic [OF assms] Bootstrap_pending_eq split: option.splits)

lemma Bootstrap_loop_panic:
  assumes "bootstrap m it = (evs, Panics)"
  shows "Bootstrap_loop m (it # its) multiErr = Some (other_calls (arrivals it) m, evs, Panics)"
  using assms by simp

lemma Bootstrap_loop_Returns_cases:
  assumes "Bootstrap_loop m (it # its) multiErr = Some (m', evs, Returns r)"
  shows "\<not> iteration_panics it"
proof (cases "bootstrap m it")
  case (Pair evs0 r0)
  show ?thesis
  proof (cases r0)
    case Panics
    with Pair assms show ?thesis by simp
  next
    case (Returns err)
    with Pair show ?thesis by (simp add: bootstrap_Returns del: Bootstrap_loop.simps)
  qed
qed

declare Bootstrap_loop.simps(2) [simp del]

lemma Bootstrap_loop_Returns_state:
  "Bootstrap_loop m its multiErr = Some (m', evs, Returns r) \<Longrightarrow>
   state m' = bootstrapped \<and> \<not> hasPending m' \<and> opts m' = opts m"
proof (induction its arbitrary: m multiErr evs)
  case Nil
  then show ?case by simp
next
  case (Cons it its)
  note np = Bootstrap_loop_Returns_cases [OF Cons.prems]
  let ?mp = "other_calls (arrivals it) m"
  show ?case
  proof (cases "hasPending ?mp")
    case False
    with Cons.prems show ?thesis
      by (auto simp: Bootstrap_loop_step [OF np] other_calls_opts)
  next
    case True
    with Cons.prems obtain evs1 where
      "Bootstrap_loop (?mp\<lparr>hasPending := False\<rparr>) its
         (add_if_error multiErr (iteration_error it)) = Some (m', evs1, Returns r)"
      by (auto simp: Bootstrap_loop_step [OF np])
    from Cons.IH [OF this] show ?thesis
      by (simp add: other_calls_opts)
  qed
qed

lemma Bootstrap_loop_Returns_char:
  "Bootstrap_loop m its multiErr = Some (m', evs, Returns r) \<Longrightarrow>
   \<exists>passes rest. its = passes @ rest \<and> passes \<noteq> [] \<and> \<not> list_ex iteration_panics passes \<and>
     evs = concat (map (iteration_events m) passes) \<and>
     r = FinalError (multiErr @ List.map_filter iteration_error passes)"
proof (induction its arbitrary: m multiErr evs)
  case Nil
  then show ?case by simp
next
  case (Cons it its)
  note np = Bootstrap_loop_Returns_cases [OF Cons.prems]
  let ?mp = "other_calls (arrivals it) m"
  let ?acc = "add_if_error multiErr (iteration_error it)"
  have acc: "?acc @ List.map_filter iteration_error xs
      = multiErr @ List.map_filter iteration_error (it # xs)" for xs
    by (cases "iteration_error it") (simp_all add: add_if_error_append List.map_filter_simps)
  show ?case
  proof (cases "hasPending ?mp")
    case False
    with Cons.prems have "evs = iteration_events m it" and "r = FinalError ?acc"
      by (auto simp: Bootstrap_loop_step [OF np])
    with np acc [of "[]"] have
      "it # its = [it] @ its \<and> [it] \<noteq> [] \<and> \<not> list_ex iteration_panics [it] \<and>
       evs = concat (map (iteration_events m) [it]) \<and>
       r = FinalError (multiErr @ List.map_filter iteration_error [it])"
      by (simp add: List.map_filter_simps)
    then show ?thesis by blast
  next
    case True
    let ?m1 = "?mp\<lparr>hasPending := False\<rparr>"
    from True Cons.prems obtain evs1 where
      l: "Bootstrap_loop ?m1 its ?acc = Some (m', evs1, Returns r)"
      and e: "evs = iteration_events m it @ evs1"
      by (auto simp: Bootstrap_loop_step [OF np])
    from Cons.IH [OF l] obtain passes rest where
      r: "its = passes @ rest" "\<not> list_ex iteration_panics passes"
         "evs1 = concat (map (iteration_events ?m1) passes)"
         "r = FinalError (?acc @ List.map_filter iteration_error passes)"
      by blast
    have "iteration_events ?m1 = iteration_events m"
      by (rule ext, rule iteration_events_opts) (simp add: other_calls_opts)
    with r e np acc [of passes] have
      "it # its = (it # passes) @ rest \<and> it # passes \<noteq> [] \<and> \<not> list_ex iteration_panics (it # passes) \<and>
       evs = concat (map (iteration_events m) (it # passes)) \<and>
       r = FinalError (multiErr @ List.map_filter iteration_error (it # passes))"
      by simp
    then show ?thesis by blast
  qed
qed

lemma Bootstrap_loop_total:
  "state m = bootstrapping \<Longrightarrow> \<not> hasPending m \<Longrightarrow>
   \<not> list_ex iteration_panics its \<Longrightarrow> list_ex (\<lambda>it. arrivals it = 0) its \<Longrightarrow>
   \<exists>m' evs r. Bootstrap_loop m its multiErr = Some (m', evs, Returns r)"
proof (induction its arbitrary: m multiErr)
  case Nil
  then show ?case by simp
next
  case (Cons it its)
  from Cons.prems have np: "\<not> iteration_panics it" by simp
  show ?case
  proof (cases "arrivals it = 0")
    case True
    with Cons.prems show ?thesis
      by (simp add: Bootstrap_loop_step [OF np])
  next
    case False
    let ?m1 = "m\<lparr>hasPending := False\<rparr>"
    from False Cons.prems have mp: "other_calls (arrivals it) m = m\<lparr>hasPending := True\<rparr>"
      by (simp add: other_calls_bootstrapping)
    from False Cons.prems have
      "state ?m1 = bootstrapping" "\<not> hasPending ?m1"
      "\<not> list_ex iteration_panics its" "list_ex (\<lambda>it. arrivals it = 0) its"
      by simp_all
    from Cons.IH [OF this] obtain m' evs r where
      "Bootstrap_loop ?m1 its (add_if_error multiErr (iteration_error it))
         = Some (m', evs, Returns r)"
      by blast
    with mp show ?thesis
      by (simp add: Bootstrap_loop_step [OF np])
  qed
qed

lemma Bootstrap_started:
  "state m \<noteq> bootstrapping \<Longrightarrow>
   Bootstrap m its =
     map_option (\<lambda>(m', evs, r). (m', DisableFileOps # evs @ [EnableFileOps], r))
       (Bootstrap_loop (m\<lparr>state := bootstrapping\<rparr>) its NewMultiError)"
  by (simp add: Bootstrap_def Bootstrap_enter_otherwise split: option.splits)

lemma Bootstrap_enter_enqueues:
  "state m = bootstrapping \<Longrightarrow>
   Bootstrap m its = Some (m\<lparr>hasPending := True\<rparr>, [], Returns (Some errBootstrapEnqueued))"
  by (simp add: Bootstrap_def Bootstrap_enter_bootstrapping)

lemma iteration_panics_Panics:
  assumes "iteration_panics it"
  shows "\<exists>evs. bootstrap m it = (evs, Panics)"
proof (cases "bootstrap m it")
  case (Pair evs r)
  show ?thesis
  proof (cases r)
    case (Returns err)
    with Pair assms show ?thesis by (simp add: bootstrap_Returns)
  next
    case Panics
    with Pair show ?thesis by simp
  qed
qed

lemma not_Returns_iff: "(\<forall>x. r \<noteq> Returns x) = (r = Panics)"
  by (cases r) simp_all

lemma without_errors_simps:
  "iteration_panics (without_errors it) = iteration_panics it"
  "arrivals (without_errors it) = arrivals it"
  by (simp_all add: iteration_panics_def without_errors_def list_ex_iff not_Returns_iff
      split: outcome.splits)

lemma Bootstrap_loop_without_errors:
  "map_option fst (Bootstrap_loop m (map without_errors its) acc1)
     = map_option fst (Bootstrap_loop m its acc2)"
proof (induction its arbitrary: m acc1 acc2)
  case Nil
  show ?case by simp
next
  case (Cons it its)
  show ?case
  proof (cases "iteration_panics it")
    case True
    then have "iteration_panics (without_errors it)" by (simp add: without_errors_simps)
    from iteration_panics_Panics [OF this, of m] iteration_panics_Panics [OF True, of m]
    show ?thesis by (auto simp: Bootstrap_loop_panic without_errors_simps)
  next
    case False
    then have np: "\<not> iteration_panics (without_errors it)" by (simp add: without_errors_simps)
    show ?thesis
      by (simp add: Bootstrap_loop_step [OF False] Bootstrap_loop_step [OF np]
          without_errors_simps option.map_comp comp_def case_prod_unfold
          Cons.IH [of _ _ "add_if_error acc2 (iteration_error it)"])
  qed
qed

lemma map_filter_iteration_error:
  "concat (map packaged_errors (List.map_filter iteration_error passes))
     = concat (map (\<lambda>it. returned_errors (getOwnedNamespaces it)) passes)"
  by (induction passes)
     (simp_all add: List.map_filter_simps iteration_error_def FinalError_def packaged_errors_def)

lemma map_filter_Nil_iff: "(List.map_filter f xs = []) = (\<forall>x \<in> set xs. f x = None)"
  by (induction xs) (simp_all add: List.map_filter_simps split: option.splits)

lemma FinalError_None_iff: "(FinalError es = None) = (es = [])"
  by (simp add: FinalError_def)

lemma map_filter_iteration_error_Nil:
  "(FinalError (List.map_filter iteration_error passes) = None)
     = (\<forall>it \<in> set passes. returned_errors (getOwnedNamespaces it) = [])"
  by (simp add: FinalError_None_iff map_filter_Nil_iff iteration_error_def)

subsection \<open>Interleaved calls\<close>

lemma step_invariant:
  assumes "step a s = Some s'"
    and "hasPending (manager s) \<longrightarrow> state (manager s) = bootstrapping"
  shows "hasPending (manager s') \<longrightarrow> state (manager s') = bootstrapping"
proof (cases a)
  case Call
  with assms show ?thesis
    by (cases "state (manager s)") (auto simp: step_def Bootstrap_enter_def)
next
  case IterationEnds
  with assms show ?thesis
    by (cases "hasPending (manager s)")
       (auto simp: step_def Bootstrap_pending_eq split: if_splits)
next
  case RunPanics
  with assms show ?thesis
    by (auto simp: step_def split: if_splits)
qed

lemma steps_invariant:
  "steps as s = Some s' \<Longrightarrow>
   hasPending (manager s) \<longrightarrow> state (manager s) = bootstrapping \<Longrightarrow>
   hasPending (manager s') \<longrightarrow> state (manager s') = bootstrapping"
proof (induction as arbitrary: s)
  case Nil
  then show ?case by simp
next
  case (Cons a as)
  from Cons.prems(1) obtain s1 where s1: "step a s = Some s1" and rest: "steps as s1 = Some s'"
    by (cases "step a s") simp_all
  from step_invariant [OF s1 Cons.prems(2)] Cons.IH [OF rest] show ?case by blast
qed

section \<open>Target ranges\<close>







section \<open>The run of a Bootstrap call\<close>

text \<open>
  Claim C3. For every call of \<^verbatim>\<open>Bootstrap()\<close> that begins a run (the manager was not
  bootstrapping) and that exits, by returning or by a panic raised inside the run, the
  calls it made are \<^verbatim>\<open>DisableFileOps\<close>, then those of the run loop, then
  \<^verbatim>\<open>EnableFileOps\<close>, and none of the calls in between is one of the two: file operations
  are disabled exactly once, before any namespace bootstrap, and enabled exactly once,
  after the last iteration.
\<close>

theorem Bootstrap_file_ops_paired:
  assumes "state m \<noteq> bootstrapping"
    and "Bootstrap m its = Some (m', evs, r)"
  shows "\<exists>calls. evs = DisableFileOps # calls @ [EnableFileOps] \<and>
           DisableFileOps \<notin> set calls \<and> EnableFileOps \<notin> set calls"
proof -
  from assms obtain calls where
    l: "Bootstrap_loop (m\<lparr>state := bootstrapping\<rparr>) its NewMultiError = Some (m', calls, r)"
    and e: "evs = DisableFileOps # calls @ [EnableFileOps]"
    by (auto simp: Bootstrap_started)
  from Bootstrap_loop_events [OF l] e show ?thesis by blast
qed

text \<open>
  Claim C3 on a run in which the second of three namespaces panics.
\<close>

theorem Bootstrap_file_ops_paired_witness:
  "state (newBootstrapManager example_opts) \<noteq> bootstrapping \<and>
   Bootstrap (newBootstrapManager example_opts) [panicking_pass] =
     Some (\<lparr>opts = example_opts, state = bootstrapping, hasPending = True\<rparr>,
           [DisableFileOps, TargetRanges 1000000,
            NamespaceBootstrap ''metrics'' example_ranges,
            NamespaceBootstrap ''broken'' example_ranges, EnableFileOps],
           Panics) \<and>
   (\<exists>calls.
      [DisableFileOps, TargetRanges 1000000,
       NamespaceBootstrap ''metrics'' example_ranges,
       NamespaceBootstrap ''broken'' example_ranges, EnableFileOps]
        = DisableFileOps # calls @ [EnableFileOps] \<and>
      DisableFileOps \<notin> set calls \<and> EnableFileOps \<notin> set calls)"
proof -
  have st: "state (newBootstrapManager example_opts) \<noteq> bootstrapping"
    by (simp add: newBootstrapManager_def)
  have run: "Bootstrap (newBootstrapManager example_opts) [panicking_pass] =
     Some (\<lparr>opts = example_opts, state = bootstrapping, hasPending = True\<rparr>,
           [DisableFileOps, TargetRanges 1000000,
            NamespaceBootstrap ''metrics'' example_ranges,
            NamespaceBootstrap ''broken'' example_ranges, EnableFileOps],
           Panics)"
    by (simp add: run_defs time_defs example_opts_def Nanosecond_def newBootstrapManager_def
        panicking_pass_def example_ranges_def)
  from Bootstrap_file_ops_paired [OF st run] st run show ?thesis by simp
qed

text \<open>
  Claim C4. In every state that a sequence of steps of \<^verbatim>\<open>Bootstrap()\<close> calls reaches from
  the initial state, a set pending flag implies that the phase is bootstrapping. A step
  sets the flag only while the phase is and stays bootstrapping, and a step that leaves
  this phase finds the flag cleared and leaves it cleared.
\<close>

theorem hasPending_only_while_bootstrapping:
  "(steps as (initial ropts) = Some s \<longrightarrow>
      (hasPending (manager s) \<longrightarrow> state (manager s) = bootstrapping)) \<and>
   (step a s1 = Some s2 \<and> \<not> hasPending (manager s1) \<and> hasPending (manager s2) \<longrightarrow>
      state (manager s1) = bootstrapping \<and> state (manager s2) = bootstrapping) \<and>
   (step b s3 = Some s4 \<and> state (manager s3) = bootstrapping \<and>
      state (manager s4) \<noteq> bootstrapping \<longrightarrow>
      \<not> hasPending (manager s3) \<and> \<not> hasPending (manager s4))"
proof (intro conjI impI)
  assume "steps as (initial ropts) = Some s" and "hasPending (manager s)"
  with steps_invariant [of as "initial ropts" s] show "state (manager s) = bootstrapping"
    by (simp add: initial_def newBootstrapManager_def)
next
  assume h: "step a s1 = Some s2 \<and> \<not> hasPending (manager s1) \<and> hasPending (manager s2)"
  then show "state (manager s1) = bootstrapping"
    by (cases a; cases "state (manager s1)")
       (auto simp: step_def Bootstrap_enter_def Bootstrap_pending_eq split: if_splits)
  from h show "state (manager s2) = bootstrapping"
    by (cases a; cases "state (manager s1)")
       (auto simp: step_def Bootstrap_enter_def Bootstrap_pending_eq split: if_splits)
next
  assume h: "step b s3 = Some s4 \<and> state (manager s3) = bootstrapping \<and>
      state (manager s4) \<noteq> bootstrapping"
  then show "\<not> hasPending (manager s3)"
    by (cases b) (auto simp: step_def Bootstrap_enter_def Bootstrap_pending_eq split: if_splits)
  from h show "\<not> hasPending (manager s4)"
    by (cases b) (auto simp: step_def Bootstrap_enter_def Bootstrap_pending_eq split: if_splits)
qed

text \<open>
  Claim C4 on two calls in a row, on the step that sets the flag and on the step that
  leaves the phase.
\<close>

theorem hasPending_only_while_bootstrapping_witness:
  "steps [Call, Call] (initial example_opts) =
     Some \<lparr>manager = \<lparr>opts = example_opts, state = bootstrapping, hasPending = True\<rparr>,
           running = 1\<rparr> \<and>
   step Call \<lparr>manager = \<lparr>opts = example_opts, state = bootstrapping, hasPending = False\<rparr>,
              running = 1\<rparr> =
     Some \<lparr>manager = \<lparr>opts = example_opts, state = bootstrapping, hasPending = True\<rparr>,
           running = 1\<rparr> \<and>
   step IterationEnds
        \<lparr>manager = \<lparr>opts = example_opts, state = bootstrapping, hasPending = False\<rparr>,
         running = 1\<rparr> =
     Some \<lparr>manager = \<lparr>opts = example_opts, state = bootstrapped, hasPending = False\<rparr>,
           running = 0\<rparr> \<and>
   hasPending \<lparr>opts = example_opts, state = bootstrapping, hasPending = True\<rparr> \<and>
   state \<lparr>opts = example_opts, state = bootstrapping, hasPending = True\<rparr> = bootstrapping"
proof -
  let ?running = "\<lparr>manager = \<lparr>opts = example_opts, state = bootstrapping, hasPending = False\<rparr>,
                    running = 1\<rparr>"
  let ?pending = "\<lparr>manager = \<lparr>opts = example_opts, state = bootstrapping, hasPending = True\<rparr>,
                    running = 1\<rparr>"
  let ?finished = "\<lparr>manager = \<lparr>opts = example_opts, state = bootstrapped, hasPending = False\<rparr>,
                     running = 0\<rparr>"
  have two: "steps [Call, Call] (initial example_opts) = Some ?pending"
    by (simp add: step_def initial_def newBootstrapManager_def Bootstrap_enter_def)
  have sets: "step Call ?running = Some ?pending"
    by (simp add: step_def Bootstrap_enter_def)
  have leaves: "step IterationEnds ?running = Some ?finished"
    by (simp add: step_def Bootstrap_pending_def)
  from hasPending_only_while_bootstrapping [of "[Call, Call]" example_opts ?pending Call ?running ?pending
      IterationEnds ?running ?finished] two sets leaves
  show ?thesis by simp
qed

text \<open>
  Claim C5. A call of \<^verbatim>\<open>Bootstrap()\<close> while the phase is bootstrapping sets the pending flag
  and returns \<^verbatim>\<open>errBootstrapEnqueued\<close>; it makes no call at all, so no namespace is
  bootstrapped, the phase stays bootstrapping, and the number of running calls does not
  change: no run is started.
\<close>

theorem Bootstrap_while_bootstrapping_is_enqueued:
  assumes "state (manager s) = bootstrapping"
  shows "(\<exists>m'. Bootstrap (manager s) its = Some (m', [], Returns (Some errBootstrapEnqueued)) \<and>
            hasPending m' \<and> state m' = bootstrapping) \<and>
         (\<exists>s'. step Call s = Some s' \<and> hasPending (manager s') \<and>
            state (manager s') = bootstrapping \<and> running s' = running s)"
  using assms
  by (simp add: Bootstrap_enter_enqueues step_def Bootstrap_enter_bootstrapping)

text \<open>
  Claim C5 on a manager that is bootstrapping with nothing pending.
\<close>

theorem Bootstrap_while_bootstrapping_is_enqueued_witness:
  "state (manager \<lparr>manager = \<lparr>opts = example_opts, state = bootstrapping, hasPending = False\<rparr>,
                    running = 1\<rparr>) = bootstrapping \<and>
   Bootstrap \<lparr>opts = example_opts, state = bootstrapping, hasPending = False\<rparr> [failing_pass] =
     Some (\<lparr>opts = example_opts, state = bootstrapping, hasPending = True\<rparr>, [],
           Returns (Some errBootstrapEnqueued)) \<and>
   step Call \<lparr>manager = \<lparr>opts = example_opts, state = bootstrapping, hasPending = False\<rparr>,
              running = 1\<rparr> =
     Some \<lparr>manager = \<lparr>opts = example_opts, state = bootstrapping, hasPending = True\<rparr>,
           running = 1\<rparr>"
  using Bootstrap_while_bootstrapping_is_enqueued [of "\<lparr>manager = \<lparr>opts = example_opts, state = bootstrapping, hasPending = False\<rparr>,
                 running = 1\<rparr>" "[failing_pass]"]
  by (simp add: Bootstrap_def step_def Bootstrap_enter_def)

text \<open>
  Claim C6. An iteration of the run loop in which no namespace panics ends by reading the
  pending flag: if it is set, the flag is cleared and the loop goes on with another full
  pass over the owned namespaces; if not, the phase is set to bootstrapped and the loop
  ends. So every call that was not enqueued and that returns leaves the phase bootstrapped
  and the flag cleared; and it does return whenever no namespace panics and some iteration
  passes without another call arriving.
\<close>

theorem Bootstrap_loops_until_nothing_pending:
  "(\<not> iteration_panics it \<longrightarrow>
      Bootstrap_loop m (it # its) multiErr =
        (if hasPending (other_calls (arrivals it) m)
         then map_option (\<lambda>(m', evs, r). (m', iteration_events m it @ evs, r))
                (Bootstrap_loop ((other_calls (arrivals it) m)\<lparr>hasPending := False\<rparr>) its
                   (add_if_error multiErr (iteration_error it)))
         else Some ((other_calls (arrivals it) m)\<lparr>state := bootstrapped\<rparr>,
                    iteration_events m it,
                    Returns (FinalError (add_if_error multiErr (iteration_error it)))))) \<and>
   (state m0 \<noteq> bootstrapping \<and> Bootstrap m0 its0 = Some (m', evs, Returns r) \<longrightarrow>
      state m' = bootstrapped \<and> \<not> hasPending m') \<and>
   (state m1 \<noteq> bootstrapping \<and> \<not> hasPending m1 \<and>
    \<not> list_ex iteration_panics its1 \<and> list_ex (\<lambda>it. arrivals it = 0) its1 \<longrightarrow>
      (\<exists>m'' evs'' r''. Bootstrap m1 its1 = Some (m'', evs'', Returns r'') \<and>
         state m'' = bootstrapped \<and> \<not> hasPending m''))"
proof (intro conjI impI)
  assume "\<not> iteration_panics it"
  then show "Bootstrap_loop m (it # its) multiErr =
        (if hasPending (other_calls (arrivals it) m)
         then map_option (\<lambda>(m', evs, r). (m', iteration_events m it @ evs, r))
                (Bootstrap_loop ((other_calls (arrivals it) m)\<lparr>hasPending := False\<rparr>) its
                   (add_if_error multiErr (iteration_error it)))
         else Some ((other_calls (arrivals it) m)\<lparr>state := bootstrapped\<rparr>,
                    iteration_events m it,
                    Returns (FinalError (add_if_error multiErr (iteration_error it)))))"
    by (rule Bootstrap_loop_step)
next
  assume h: "state m0 \<noteq> bootstrapping \<and> Bootstrap m0 its0 = Some (m', evs, Returns r)"
  then obtain calls where
    "Bootstrap_loop (m0\<lparr>state := bootstrapping\<rparr>) its0 NewMultiError = Some (m', calls, Returns r)"
    by (auto simp: Bootstrap_started)
  from Bootstrap_loop_Returns_state [OF this]
  show "state m' = bootstrapped" and "\<not> hasPending m'" by simp_all
next
  assume h: "state m1 \<noteq> bootstrapping \<and> \<not> hasPending m1 \<and>
    \<not> list_ex iteration_panics its1 \<and> list_ex (\<lambda>it. arrivals it = 0) its1"
  let ?m = "m1\<lparr>state := bootstrapping\<rparr>"
  from h have "state ?m = bootstrapping" "\<not> hasPending ?m"
    "\<not> list_ex iteration_panics its1" "list_ex (\<lambda>it. arrivals it = 0) its1"
    by simp_all
  from Bootstrap_loop_total [OF this] obtain m'' calls r'' where
    l: "Bootstrap_loop ?m its1 NewMultiError = Some (m'', calls, Returns r'')"
    by blast
  from Bootstrap_loop_Returns_state [OF l] l h
  show "\<exists>m'' evs'' r''. Bootstrap m1 its1 = Some (m'', evs'', Returns r'') \<and>
         state m'' = bootstrapped \<and> \<not> hasPending m''"
    by (simp add: Bootstrap_started)
qed

text \<open>
  Claim C6 on a run of three iterations, with two other calls arriving during each of the
  first two.
\<close>

theorem Bootstrap_loops_until_nothing_pending_witness:
  "\<not> iteration_panics busy_pass \<and>
   state (newBootstrapManager example_opts) \<noteq> bootstrapping \<and>
   \<not> hasPending (newBootstrapManager example_opts) \<and>
   \<not> list_ex iteration_panics [busy_pass, busy_pass, quiet_pass] \<and>
   list_ex (\<lambda>it. arrivals it = 0) [busy_pass, busy_pass, quiet_pass] \<and>
   hasPending (other_calls (arrivals busy_pass)
     \<lparr>opts = example_opts, state = bootstrapping, hasPending = False\<rparr>) \<and>
   Bootstrap (newBootstrapManager example_opts) [busy_pass, busy_pass, quiet_pass] =
     Some (\<lparr>opts = example_opts, state = bootstrapped, hasPending = False\<rparr>,
           [DisableFileOps,
            TargetRanges 1000000,
            NamespaceBootstrap ''events'' example_ranges,
            NamespaceBootstrap ''metrics'' example_ranges,
            TargetRanges 1000000,
            NamespaceBootstrap ''events'' example_ranges,
            NamespaceBootstrap ''metrics'' example_ranges,
            TargetRanges 1000000,
            NamespaceBootstrap ''metrics'' example_ranges,
            EnableFileOps],
           Returns (Some (errMulti [errMulti [errNamespaceIsBootstrapping],
                                    errMulti [errNamespaceIsBootstrapping]])))"
proof -
  let ?m = "newBootstrapManager example_opts"
  let ?its = "[busy_pass, busy_pass, quiet_pass]"
  let ?m' = "\<lparr>opts = example_opts, state = bootstrapped, hasPending = False\<rparr>"
  let ?evs = "[DisableFileOps,
            TargetRanges 1000000,
            NamespaceBootstrap ''events'' example_ranges,
            NamespaceBootstrap ''metrics'' example_ranges,
            TargetRanges 1000000,
            NamespaceBootstrap ''events'' example_ranges,
            NamespaceBootstrap ''metrics'' example_ranges,
            TargetRanges 1000000,
            NamespaceBootstrap ''metrics'' example_ranges,
            EnableFileOps]"
  let ?r = "Some (errMulti [errMulti [errNamespaceIsBootstrapping],
                            errMulti [errNamespaceIsBootstrapping]])"
  have run: "Bootstrap ?m ?its = Some (?m', ?evs, Returns ?r)"
    by (simp add: run_defs time_defs example_opts_def Nanosecond_def newBootstrapManager_def
        busy_pass_def quiet_pass_def example_ranges_def eval_nat_numeral)
  have pre: "\<not> iteration_panics busy_pass \<and>
     state ?m \<noteq> bootstrapping \<and> \<not> hasPending ?m \<and>
     \<not> list_ex iteration_panics ?its \<and> list_ex (\<lambda>it. arrivals it = 0) ?its \<and>
     hasPending (other_calls (arrivals busy_pass)
       \<lparr>opts = example_opts, state = bootstrapping, hasPending = False\<rparr>)"
    by (simp add: iteration_panics_def Bootstrap_enter_def newBootstrapManager_def
        busy_pass_def quiet_pass_def eval_nat_numeral)
  from Bootstrap_loops_until_nothing_pending [of busy_pass "\<lparr>opts = example_opts, state = bootstrapping, hasPending = False\<rparr>"
      "[busy_pass, quiet_pass]" "[]" ?m ?its ?m' ?evs ?r ?m ?its] run pre
  show ?thesis by simp
qed

text \<open>
  Claim C7. A call that begins a run and returns has executed some first iterations of the
  environment; in each of them \<^verbatim>\<open>namespace.Bootstrap\<close> was called for every owned
  namespace, whatever the earlier ones returned; the value returned is the final error of
  the multi-error that holds the final error of each iteration, so the errors it packages
  are, in order, all the errors that the namespaces returned; and it is nil exactly when
  no namespace returned an error.
\<close>

theorem Bootstrap_aggregates_all_errors:
  assumes "state m \<noteq> bootstrapping"
    and "Bootstrap m its = Some (m', evs, Returns r)"
  shows "\<exists>passes rest. its = passes @ rest \<and> passes \<noteq> [] \<and>
           evs = DisableFileOps # concat (map (iteration_events m) passes) @ [EnableFileOps] \<and>
           r = FinalError (List.map_filter iteration_error passes) \<and>
           concat (map packaged_errors (List.map_filter iteration_error passes))
             = concat (map (\<lambda>it. returned_errors (getOwnedNamespaces it)) passes) \<and>
           (r = None) = (\<forall>it \<in> set passes. returned_errors (getOwnedNamespaces it) = [])"
proof -
  let ?m = "m\<lparr>state := bootstrapping\<rparr>"
  from assms obtain calls where
    l: "Bootstrap_loop ?m its NewMultiError = Some (m', calls, Returns r)"
    and e: "evs = DisableFileOps # calls @ [EnableFileOps]"
    by (auto simp: Bootstrap_started)
  from Bootstrap_loop_Returns_char [OF l] obtain passes rest where
    p: "its = passes @ rest" "passes \<noteq> []"
       "calls = concat (map (iteration_events ?m) passes)"
       "r = FinalError (List.map_filter iteration_error passes)"
    by (auto simp: NewMultiError_def)
  have "iteration_events ?m = iteration_events m"
    by (rule ext, rule iteration_events_opts) simp
  with p e have
    "its = passes @ rest \<and> passes \<noteq> [] \<and>
     evs = DisableFileOps # concat (map (iteration_events m) passes) @ [EnableFileOps] \<and>
     r = FinalError (List.map_filter iteration_error passes) \<and>
     concat (map packaged_errors (List.map_filter iteration_error passes))
       = concat (map (\<lambda>it. returned_errors (getOwnedNamespaces it)) passes) \<and>
     (r = None) = (\<forall>it \<in> set passes. returned_errors (getOwnedNamespaces it) = [])"
    by (simp add: map_filter_iteration_error map_filter_iteration_error_Nil)
  then show ?thesis by (intro exI [of _ passes] exI [of _ rest])
qed

text \<open>
  Claim C7 on a run of two iterations in which the first namespace fails each time.
\<close>

theorem Bootstrap_aggregates_all_errors_witness:
  "state (newBootstrapManager example_opts) \<noteq> bootstrapping \<and>
   Bootstrap (newBootstrapManager example_opts) [busy_pass, failing_pass, quiet_pass] =
     Some (\<lparr>opts = example_opts, state = bootstrapped, hasPending = False\<rparr>,
           [DisableFileOps,
            TargetRanges 1000000,
            NamespaceBootstrap ''events'' example_ranges,
            NamespaceBootstrap ''metrics'' example_ranges,
            TargetRanges 1000000,
            NamespaceBootstrap ''events'' example_ranges,
            NamespaceBootstrap ''metrics'' example_ranges,
            NamespaceBootstrap ''traces'' example_ranges,
            EnableFileOps],
           Returns (Some (errMulti
             [errMulti [errNamespaceIsBootstrapping],
              errMulti [errNamespaceIsBootstrapping, errOther ''peer unavailable'']]))) \<and>
   (\<exists>passes rest. [busy_pass, failing_pass, quiet_pass] = passes @ rest \<and> passes \<noteq> [] \<and>
      Some (errMulti
             [errMulti [errNamespaceIsBootstrapping],
              errMulti [errNamespaceIsBootstrapping, errOther ''peer unavailable'']])
        = FinalError (List.map_filter iteration_error passes))"
proof -
  have st: "state (newBootstrapManager example_opts) \<noteq> bootstrapping"
    by (simp add: newBootstrapManager_def)
  have run: "Bootstrap (newBootstrapManager example_opts) [busy_pass, failing_pass, quiet_pass] =
     Some (\<lparr>opts = example_opts, state = bootstrapped, hasPending = False\<rparr>,
           [DisableFileOps,
            TargetRanges 1000000,
            NamespaceBootstrap ''events'' example_ranges,
            NamespaceBootstrap ''metrics'' example_ranges,
            TargetRanges 1000000,
            NamespaceBootstrap ''events'' example_ranges,
            NamespaceBootstrap ''metrics'' example_ranges,
            NamespaceBootstrap ''traces'' example_ranges,
            EnableFileOps],
           Returns (Some (errMulti
             [errMulti [errNamespaceIsBootstrapping],
              errMulti [errNamespaceIsBootstrapping, errOther ''peer unavailable'']])))"
    by (simp add: run_defs time_defs example_opts_def Nanosecond_def newBootstrapManager_def
        busy_pass_def failing_pass_def example_ranges_def eval_nat_numeral)
  from Bootstrap_aggregates_all_errors [OF st run] obtain passes rest where
    "[busy_pass, failing_pass, quiet_pass] = passes @ rest \<and> passes \<noteq> [] \<and>
      Some (errMulti
             [errMulti [errNamespaceIsBootstrapping],
              errMulti [errNamespaceIsBootstrapping, errOther ''peer unavailable'']])
        = FinalError (List.map_filter iteration_error passes)"
    by blast
  then have "\<exists>passes rest. [busy_pass, failing_pass, quiet_pass] = passes @ rest \<and> passes \<noteq> [] \<and>
      Some (errMulti
             [errMulti [errNamespaceIsBootstrapping],
              errMulti [errNamespaceIsBootstrapping, errOther ''peer unavailable'']])
        = FinalError (List.map_filter iteration_error passes)"
    by (intro exI [of _ passes] exI [of _ rest])
  with st run show ?thesis by (intro conjI)
qed

text \<open>
  Claim C8. On a manager that is bootstrapped, with nothing pending and no other call
  arriving, \<^verbatim>\<open>Bootstrap()\<close> makes the calls of exactly one pass over the owned namespaces,
  between \<^verbatim>\<open>DisableFileOps\<close> and \<^verbatim>\<open>EnableFileOps\<close>, and when the call returns the manager
  is as it was, bootstrapped.
\<close>

theorem Bootstrap_again_when_bootstrapped:
  assumes "state m = bootstrapped" and "\<not> hasPending m" and "arrivals it = 0"
  shows "(\<exists>m' r. Bootstrap m (it # its) =
              Some (m', DisableFileOps # fst (bootstrap m it) @ [EnableFileOps], r) \<and>
            (r \<noteq> Panics \<longrightarrow> m' = m \<and> IsBootstrapped m')) \<and>
         (\<not> iteration_panics it \<longrightarrow>
            Bootstrap m (it # its) =
              Some (m, DisableFileOps # iteration_events m it @ [EnableFileOps],
                    Returns (FinalError (add_if_error NewMultiError (iteration_error it)))))"
proof -
  let ?m = "m\<lparr>state := bootstrapping\<rparr>"
  have ev: "bootstrap ?m it = bootstrap m it"
    by (simp add: bootstrap_def targetRanges_def)
  from assms have undo: "?m\<lparr>state := bootstrapped\<rparr> = m"
    by (cases m) simp
  obtain evs r0 where b: "bootstrap m it = (evs, r0)" by (cases "bootstrap m it")
  have either_end: "\<exists>m' r. Bootstrap m (it # its) =
              Some (m', DisableFileOps # fst (bootstrap m it) @ [EnableFileOps], r) \<and>
            (r \<noteq> Panics \<longrightarrow> m' = m \<and> IsBootstrapped m')"
  proof (cases r0)
    case Panics
    with assms b ev show ?thesis
      by (simp add: Bootstrap_started Bootstrap_loop.simps)
  next
    case (Returns err)
    with assms b ev undo show ?thesis
      by (simp add: Bootstrap_started Bootstrap_loop.simps Bootstrap_pending_eq IsBootstrapped_def)
  qed
  have returning: "Bootstrap m (it # its) =
      Some (m, DisableFileOps # iteration_events m it @ [EnableFileOps],
            Returns (FinalError (add_if_error NewMultiError (iteration_error it))))"
    if np: "\<not> iteration_panics it"
    using assms undo bootstrap_no_panic [OF np, of m] ev
    by (simp add: Bootstrap_started Bootstrap_loop.simps Bootstrap_pending_eq)
  from either_end returning show ?thesis by blast
qed

text \<open>
  Claim C8 on a bootstrapped manager, with a pass in which two namespaces fail.
\<close>

theorem Bootstrap_again_when_bootstrapped_witness:
  "state \<lparr>opts = example_opts, state = bootstrapped, hasPending = False\<rparr> = bootstrapped \<and>
   \<not> hasPending \<lparr>opts = example_opts, state = bootstrapped, hasPending = False\<rparr> \<and>
   arrivals failing_pass = 0 \<and> \<not> iteration_panics failing_pass \<and>
   Bootstrap \<lparr>opts = example_opts, state = bootstrapped, hasPending = False\<rparr>
       [failing_pass, busy_pass] =
     Some (\<lparr>opts = example_opts, state = bootstrapped, hasPending = False\<rparr>,
           [DisableFileOps,
            TargetRanges 1000000,
            NamespaceBootstrap ''events'' example_ranges,
            NamespaceBootstrap ''metrics'' example_ranges,
            NamespaceBootstrap ''traces'' example_ranges,
            EnableFileOps],
           Returns (Some (errMulti
             [errMulti [errNamespaceIsBootstrapping, errOther ''peer unavailable'']])))"
  using Bootstrap_again_when_bootstrapped [of "\<lparr>opts = example_opts, state = bootstrapped, hasPending = False\<rparr>"
      failing_pass "[busy_pass]"]
  by (simp add: iteration_panics_def iteration_events_def iteration_error_def
      returned_errors_def List.map_filter_simps run_defs time_defs
      example_opts_def Nanosecond_def failing_pass_def example_ranges_def)

text \<open>
  Claim C9. A call that begins a run and returns a non-nil error leaves the phase
  bootstrapped; and the manager that a call leaves, if it exits at all, is the same when
  every error returned by a namespace is replaced by nil: the transition does not depend
  on the errors accumulated.
\<close>

theorem Bootstrap_bootstrapped_despite_errors:
  "(state m \<noteq> bootstrapping \<and> Bootstrap m its = Some (m', evs, Returns (Some e)) \<longrightarrow>
      state m' = bootstrapped \<and> IsBootstrapped m') \<and>
   map_option fst (Bootstrap m0 (map without_errors its0)) = map_option fst (Bootstrap m0 its0)"
proof (intro conjI impI)
  assume h: "state m \<noteq> bootstrapping \<and> Bootstrap m its = Some (m', evs, Returns (Some e))"
  then obtain calls where
    "Bootstrap_loop (m\<lparr>state := bootstrapping\<rparr>) its NewMultiError
       = Some (m', calls, Returns (Some e))"
    by (auto simp: Bootstrap_started)
  from Bootstrap_loop_Returns_state [OF this]
  show "state m' = bootstrapped" and "IsBootstrapped m'"
    by (simp_all add: IsBootstrapped_def)
next
  show "map_option fst (Bootstrap m0 (map without_errors its0)) = map_option fst (Bootstrap m0 its0)"
  proof (cases "state m0 = bootstrapping")
    case True
    then show ?thesis by (simp add: Bootstrap_enter_enqueues)
  next
    case False
    with Bootstrap_loop_without_errors
      [of "m0\<lparr>state := bootstrapping\<rparr>" its0 NewMultiError NewMultiError]
    show ?thesis
      by (simp add: Bootstrap_started option.map_comp comp_def case_prod_unfold)
  qed
qed

text \<open>
  Claim C9 on a run whose single pass has two failing namespaces.
\<close>

theorem Bootstrap_bootstrapped_despite_errors_witness:
  "state (newBootstrapManager example_opts) \<noteq> bootstrapping \<and>
   Bootstrap (newBootstrapManager example_opts) [failing_pass] =
     Some (\<lparr>opts = example_opts, state = bootstrapped, hasPending = False\<rparr>,
           [DisableFileOps,
            TargetRanges 1000000,
            NamespaceBootstrap ''events'' example_ranges,
            NamespaceBootstrap ''metrics'' example_ranges,
            NamespaceBootstrap ''traces'' example_ranges,
            EnableFileOps],
           Returns (Some (errMulti
             [errMulti [errNamespaceIsBootstrapping, errOther ''peer unavailable'']]))) \<and>
   IsBootstrapped \<lparr>opts = example_opts, state = bootstrapped, hasPending = False\<rparr> \<and>
   map_option fst (Bootstrap (newBootstrapManager example_opts) (map without_errors [failing_pass]))
     = Some \<lparr>opts = example_opts, state = bootstrapped, hasPending = False\<rparr>"
proof -
  let ?m = "newBootstrapManager example_opts"
  let ?m' = "\<lparr>opts = example_opts, state = bootstrapped, hasPending = False\<rparr>"
  let ?evs = "[DisableFileOps,
            TargetRanges 1000000,
            NamespaceBootstrap ''events'' example_ranges,
            NamespaceBootstrap ''metrics'' example_ranges,
            NamespaceBootstrap ''traces'' example_ranges,
            EnableFileOps]"
  let ?e = "errMulti [errMulti [errNamespaceIsBootstrapping, errOther ''peer unavailable'']]"
  have st: "state ?m \<noteq> bootstrapping"
    by (simp add: newBootstrapManager_def)
  have run: "Bootstrap ?m [failing_pass] = Some (?m', ?evs, Returns (Some ?e))"
    by (simp add: run_defs time_defs example_opts_def Nanosecond_def newBootstrapManager_def
        failing_pass_def example_ranges_def)
  from Bootstrap_bootstrapped_despite_errors [of ?m "[failing_pass]" ?m' ?evs ?e ?m "[failing_pass]"] st run
  show ?thesis by simp
qed

text \<open>
  Claim C10. On the enqueued path the manager differs from the one before the call in the
  pending flag only, which is set; the list of calls is empty (no
  \<^verbatim>\<open>DisableFileOps\<close>, no \<^verbatim>\<open>EnableFileOps\<close>, no \<^verbatim>\<open>targetRanges\<close>, no namespace bootstrap),
  whatever the environment would have done.
\<close>

theorem Bootstrap_enqueued_frame:
  assumes "state m = bootstrapping"
  shows "Bootstrap m its =
           Some (m\<lparr>hasPending := True\<rparr>, [], Returns (Some errBootstrapEnqueued))"
  using assms by (rule Bootstrap_enter_enqueues)

text \<open>
  Claim C10 on a manager that is bootstrapping with a request already pending.
\<close>

theorem Bootstrap_enqueued_frame_witness:
  "state \<lparr>opts = test_opts, state = bootstrapping, hasPending = True\<rparr> = bootstrapping \<and>
   Bootstrap \<lparr>opts = test_opts, state = bootstrapping, hasPending = True\<rparr>
       [panicking_pass, quiet_pass] =
     Some (\<lparr>opts = test_opts, state = bootstrapping, hasPending = True\<rparr>, [],
           Returns (Some errBootstrapEnqueued))"
  using Bootstrap_enqueued_frame [of "\<lparr>opts = test_opts, state = bootstrapping, hasPending = True\<rparr>"
      "[panicking_pass, quiet_pass]"]
  by simp

end
